theory Spec2Isabelle
  imports Complex_Main "HOL-Library.Word" "HOL-Library.Multiset"
begin

section \<open>Data model of \<open>svo/frame_handler_base.cpp\<close>\<close>

text \<open>
  The enumerations are declared in \<open>frame_handler_base.h\<close>. The constructors that the
  source file mentions keep their names (\<open>STAGE_*\<close>, \<open>TRACKING_GOOD\<close>,
  \<open>TRACKING_INSUFFICIENT\<close>, \<open>RESULT_FAILURE\<close>); the two update results that are not
  failures are never inspected by the source file and are named after the specification.
\<close>

datatype Stage = STAGE_PAUSED | STAGE_FIRST_FRAME | STAGE_DEFAULT_FRAME | STAGE_RELOCALIZING

datatype TrackingQuality = TRACKING_INSUFFICIENT | TRACKING_GOOD

datatype UpdateResult = RESULT_NORMAL | RESULT_KEYFRAME | RESULT_FAILURE

text \<open>
  \<open>size_t\<close> is the unsigned 64-bit integer of an LP64 target and \<open>int\<close> is the 32-bit
  two's complement integer; a \<open>Point*\<close> is an address.
\<close>

type_synonym size_t = "64 word"
type_synonym c_int = "32 word"
type_synonym addr = nat

subsection \<open>The Map collaborator\<close>

text \<open>
  The Map owns the live Points, the candidate Points and the deferred-deletion queue. The
  field \<open>calls\<close> is a ghost log of the operations the controller has invoked on the Map, so
  that how often an operation ran is observable.
\<close>

datatype map_call = CALL_reset | CALL_emptyTrash

record map_state =
  points :: "addr list"
  candidates :: "addr list"
  trash :: "addr list"
  calls :: "map_call list"

text \<open>
  Modelled from the spec: \<open>Map::reset\<close> (\<open>map.cpp\<close> is not part of the sources at hand).
  The specification's contract is "drop all Points and candidates, safe to call any number
  of times".
\<close>

definition Map_reset :: "map_state \<Rightarrow> map_state" where
  "Map_reset m = m\<lparr>points := [], candidates := [], calls := calls m @ [CALL_reset]\<rparr>"

text \<open>
  Modelled from the spec: \<open>Map::emptyTrash\<close> (\<open>map.cpp\<close> is not part of the sources at
  hand). The specification's contract is "idempotently drain deferred deletions, safe to
  call every frame even when nothing is pending".
\<close>

definition Map_emptyTrash :: "map_state \<Rightarrow> map_state" where
  "Map_emptyTrash m = m\<lparr>trash := [], calls := calls m @ [CALL_emptyTrash]\<rparr>"

subsection \<open>Configuration\<close>

text \<open>
  \<open>svo/config.h\<close> is not part of the sources at hand, so the three thresholds that
  \<open>setTrackingQuality\<close> reads are parameters. \<open>qualityMinFts\<close> and \<open>maxFts\<close> are
  \<open>size_t\<close> (the first is printed with \<open>%zu\<close>, the second is an argument of \<open>std::min\<close>
  next to the \<open>size_t\<close> member \<open>num_obs_last_\<close>); \<open>qualityMaxFtsDrop\<close> is an \<open>int\<close>.
\<close>

record Config =
  qualityMinFts :: size_t
  maxFts :: size_t
  qualityMaxFtsDrop :: c_int

subsection \<open>The controller\<close>

text \<open>
  The members of \<open>FrameHandlerBase\<close>; the trailing underscore of the C++ member names is
  dropped and the member \<open>map_\<close> is called \<open>map_obj\<close>.
\<close>

record FrameHandlerBase =
  stage :: Stage
  set_reset :: bool
  set_start :: bool
  num_obs_last :: size_t
  tracking_quality :: TrackingQuality
  map_obj :: map_state

text \<open>The constructor's member initialisers (lines 36 to 41), over a given Map.\<close>

definition FrameHandlerBase_init :: "map_state \<Rightarrow> FrameHandlerBase" where
  "FrameHandlerBase_init m =
     \<lparr>stage = STAGE_PAUSED, set_reset = False, set_start = False, num_obs_last = 0,
      tracking_quality = TRACKING_INSUFFICIENT, map_obj = m\<rparr>"

section \<open>Operations of the controller\<close>

text \<open>\<open>FrameHandlerBase::resetCommon\<close> (lines 151 to 160). The log macros have no effect on the state.\<close>

definition resetCommon :: "FrameHandlerBase \<Rightarrow> FrameHandlerBase" where
  "resetCommon s =
     s\<lparr>map_obj := Map_reset (map_obj s),
       stage := STAGE_PAUSED,
       set_reset := False,
       set_start := False,
       tracking_quality := TRACKING_INSUFFICIENT,
       num_obs_last := 0\<rparr>"

text \<open>
  Modelled from the spec: \<open>resetAll\<close> is a virtual member declared in
  \<open>frame_handler_base.h\<close>, which is not part of the sources at hand. The specification
  describes it with exactly the effects of \<open>resetCommon\<close> (Map reset, stage Paused, both
  request flags cleared, quality Insufficient, observation count 0).
\<close>

definition resetAll :: "FrameHandlerBase \<Rightarrow> FrameHandlerBase" where
  "resetAll s = resetCommon s"

text \<open>
  Modelled from the spec: \<open>requestReset\<close> is defined in the header
  \<open>frame_handler_base.h\<close>, which is not part of the sources at hand; the specification
  says that it sets the reset flag.
\<close>

definition requestReset :: "FrameHandlerBase \<Rightarrow> FrameHandlerBase" where
  "requestReset s = s\<lparr>set_reset := True\<rparr>"

text \<open>
  Modelled from the spec: \<open>requestStart\<close> is defined in the same missing header; the
  specification says that it sets the start flag.
\<close>

definition requestStart :: "FrameHandlerBase \<Rightarrow> FrameHandlerBase" where
  "requestStart s = s\<lparr>set_start := True\<rparr>"

text \<open>
  \<open>FrameHandlerBase::startFrameProcessingCommon\<close> (lines 87 to 109): the returned pair is
  the boolean result and the state after the call.
\<close>

definition startFrameProcessingCommon :: "real \<Rightarrow> FrameHandlerBase \<Rightarrow> bool \<times> FrameHandlerBase" where
  "startFrameProcessingCommon timestamp s =
     (let s1 = (if set_start s then (resetAll s)\<lparr>stage := STAGE_FIRST_FRAME\<rparr> else s)
      in if stage s1 = STAGE_PAUSED then (False, s1)
         else (True, s1\<lparr>map_obj := Map_emptyTrash (map_obj s1)\<rparr>))"

text \<open>
  \<open>FrameHandlerBase::finishFrameProcessingCommon\<close> (lines 114 to 149): the returned pair is
  the \<open>int\<close> result and the state after the call.
\<close>

definition finishFrameProcessingCommon ::
  "size_t \<Rightarrow> UpdateResult \<Rightarrow> size_t \<Rightarrow> FrameHandlerBase \<Rightarrow> c_int \<times> FrameHandlerBase" where
  "finishFrameProcessingCommon update_id dropout num_observations s =
     (let s1 = s\<lparr>num_obs_last := num_observations\<rparr>;
          s2 = (if dropout = RESULT_FAILURE \<and>
                   (stage s1 = STAGE_DEFAULT_FRAME \<or> stage s1 = STAGE_RELOCALIZING)
                then s1\<lparr>stage := STAGE_RELOCALIZING, tracking_quality := TRACKING_INSUFFICIENT\<rparr>
                else if dropout = RESULT_FAILURE
                then (resetAll s1)\<lparr>set_start := True\<rparr>
                else s1);
          s3 = (if set_reset s2 then resetAll s2 else s2)
      in (0, s3))"

text \<open>
  \<open>FrameHandlerBase::setTrackingQuality\<close> (lines 165 to 179). In line 173 the minimum is
  cast to \<open>int\<close> (truncation to 32 bits), converted back to \<open>size_t\<close> for the subtraction
  with a \<open>size_t\<close> (sign extension, then subtraction modulo \<open>2 ^ 64\<close>), and the difference
  is stored in an \<open>int\<close> (truncation). The comparison in line 174 is between two \<open>int\<close>s.
\<close>

definition feature_drop :: "Config \<Rightarrow> size_t \<Rightarrow> size_t \<Rightarrow> c_int" where
  "feature_drop cfg n_last num_observations =
     ucast ((scast (ucast (min n_last (maxFts cfg)) :: c_int) :: size_t) - num_observations)"

definition setTrackingQuality :: "Config \<Rightarrow> size_t \<Rightarrow> FrameHandlerBase \<Rightarrow> FrameHandlerBase" where
  "setTrackingQuality cfg num_observations s =
     (let s1 = s\<lparr>tracking_quality := TRACKING_GOOD\<rparr>;
          s2 = (if num_observations < qualityMinFts cfg
                then s1\<lparr>tracking_quality := TRACKING_INSUFFICIENT\<rparr> else s1)
      in if sint (qualityMaxFtsDrop cfg) < sint (feature_drop cfg (num_obs_last s2) num_observations)
         then s2\<lparr>tracking_quality := TRACKING_INSUFFICIENT\<rparr> else s2)"

subsection \<open>Sequences of calls\<close>

text \<open>
  The six operations a caller can invoke, and the list of states observed before the first
  call, between consecutive calls and after the last call.
\<close>

datatype call =
    StartFrameProcessing real
  | FinishFrameProcessing size_t UpdateResult size_t
  | ResetAll
  | RequestReset
  | RequestStart
  | SetTrackingQuality size_t

fun step :: "Config \<Rightarrow> call \<Rightarrow> FrameHandlerBase \<Rightarrow> FrameHandlerBase" where
  "step cfg (StartFrameProcessing timestamp) s = snd (startFrameProcessingCommon timestamp s)"
| "step cfg (FinishFrameProcessing update_id dropout n) s =
     snd (finishFrameProcessingCommon update_id dropout n s)"
| "step cfg ResetAll s = resetAll s"
| "step cfg RequestReset s = requestReset s"
| "step cfg RequestStart s = requestStart s"
| "step cfg (SetTrackingQuality n) s = setTrackingQuality cfg n s"

fun run :: "Config \<Rightarrow> call list \<Rightarrow> FrameHandlerBase \<Rightarrow> FrameHandlerBase list" where
  "run cfg [] s = [s]"
| "run cfg (c # cs) s = s # run cfg cs (step cfg c s)"

text \<open>
  The stage moves that the specification's transition closure admits between two calls:
  no move, Paused to FirstFrame, FirstFrame, DefaultFrame or Relocalizing to Relocalizing,
  and any stage to Paused.
\<close>

definition spec_stage_move :: "Stage \<Rightarrow> Stage \<Rightarrow> bool" where
  "spec_stage_move a b \<longleftrightarrow>
     b = a
     \<or> (a = STAGE_PAUSED \<and> b = STAGE_FIRST_FRAME)
     \<or> ((a = STAGE_FIRST_FRAME \<or> a = STAGE_DEFAULT_FRAME \<or> a = STAGE_RELOCALIZING)
          \<and> b = STAGE_RELOCALIZING)
     \<or> b = STAGE_PAUSED"

text \<open>
  The stage moves of the code, with their causes: \<open>stage_move c s b\<close> says that call \<open>c\<close>
  issued in state \<open>s\<close> may leave the stage \<open>b\<close>.
\<close>

fun stage_move :: "call \<Rightarrow> FrameHandlerBase \<Rightarrow> Stage \<Rightarrow> bool" where
  "stage_move (StartFrameProcessing timestamp) s b =
     (b = stage s \<or> (set_start s \<and> b = STAGE_FIRST_FRAME))"
| "stage_move (FinishFrameProcessing update_id dropout n) s b =
     (b = stage s
      \<or> (dropout = RESULT_FAILURE
          \<and> (stage s = STAGE_DEFAULT_FRAME \<or> stage s = STAGE_RELOCALIZING)
          \<and> set_reset s = False
          \<and> b = STAGE_RELOCALIZING)
      \<or> ((set_reset s
           \<or> (dropout = RESULT_FAILURE
               \<and> stage s \<noteq> STAGE_DEFAULT_FRAME \<and> stage s \<noteq> STAGE_RELOCALIZING))
          \<and> b = STAGE_PAUSED))"
| "stage_move ResetAll s b = (b = STAGE_PAUSED)"
| "stage_move RequestReset s b = (b = stage s)"
| "stage_move RequestStart s b = (b = stage s)"
| "stage_move (SetTrackingQuality n) s b = (b = stage s)"

section \<open>The structure optimizer\<close>

text \<open>
  A Point carries the id of the frame of its last structure optimisation. Its numeric
  state is opaque here; the ghost field \<open>optimize_calls\<close> lists the \<open>max_iter\<close> arguments
  of the \<open>optimize\<close> calls the Point has received. A Feature holds a pointer to a Point or
  \<open>NULL\<close>; a Frame has an id and its Features in insertion order. Points live in a heap.
\<close>

record Point =
  last_structure_optim :: c_int
  optimize_calls :: "c_int list"

record Feature =
  point :: "addr option"

record Frame =
  frame_id :: c_int
  fts :: "Feature list"

type_synonym heap = "addr \<rightharpoonup> Point"

text \<open>
  Modelled from the spec: \<open>Point::optimize\<close> (\<open>point.cpp\<close> is not part of the sources at
  hand). The specification's contract is a bounded-iteration numeric refinement without
  return value that touches only the Point's own state; the model records the call.
\<close>

definition Point_optimize :: "c_int \<Rightarrow> Point \<Rightarrow> Point" where
  "Point_optimize max_iter pt = pt\<lparr>optimize_calls := optimize_calls pt @ [max_iter]\<rparr>"

text \<open>\<open>ptLastOptimComparator\<close> (lines 181 to 184), on the two Points pointed to.\<close>

definition ptLastOptimComparator :: "Point \<Rightarrow> Point \<Rightarrow> bool" where
  "ptLastOptimComparator lhs rhs \<longleftrightarrow> sint (last_structure_optim lhs) < sint (last_structure_optim rhs)"

definition cmp_ptr :: "heap \<Rightarrow> addr \<Rightarrow> addr \<Rightarrow> bool" where
  "cmp_ptr h lhs rhs =
     (case h lhs of None \<Rightarrow> False
      | Some l \<Rightarrow> (case h rhs of None \<Rightarrow> False | Some r \<Rightarrow> ptLastOptimComparator l r))"

text \<open>The first loop of \<open>optimizeStructure\<close> (lines 196 to 201).\<close>

fun collect_pts :: "Feature list \<Rightarrow> addr list" where
  "collect_pts [] = []"
| "collect_pts (ft # rest) =
     (case point ft of None \<Rightarrow> collect_pts rest | Some p \<Rightarrow> p # collect_pts rest)"

text \<open>
  The second loop (lines 204 to 209), over the first \<open>max_n_pts\<close> pointers of the deque.
  Dereferencing a pointer to a Point that the heap does not hold fails.
\<close>

fun refine_pts :: "c_int \<Rightarrow> c_int \<Rightarrow> addr list \<Rightarrow> heap \<Rightarrow> heap option" where
  "refine_pts fid max_iter [] h = Some h"
| "refine_pts fid max_iter (p # ps) h =
     (case h p of None \<Rightarrow> None
      | Some pt \<Rightarrow>
          refine_pts fid max_iter ps
            (h(p \<mapsto> (Point_optimize max_iter pt)\<lparr>last_structure_optim := fid\<rparr>)))"

text \<open>
  \<open>std::nth_element\<close> belongs to the C++ standard library, which fixes its result only up
  to a postcondition: the range is permuted, and no element from position \<open>n\<close> on is less
  than an element before position \<open>n\<close>. The model takes the algorithm as a parameter and
  the theorems assume this postcondition of it.
\<close>

definition nth_element_post :: "('a \<Rightarrow> 'a \<Rightarrow> bool) \<Rightarrow> nat \<Rightarrow> 'a list \<Rightarrow> 'a list \<Rightarrow> bool" where
  "nth_element_post cmp n xs ys \<longleftrightarrow>
     mset ys = mset xs \<and> list_all (\<lambda>i. list_all (\<lambda>j. \<not> cmp j i) (drop n ys)) (take n ys)"

text \<open>One algorithm with this postcondition: insertion sort with the comparator.\<close>

fun insert_comp :: "('a \<Rightarrow> 'a \<Rightarrow> bool) \<Rightarrow> 'a \<Rightarrow> 'a list \<Rightarrow> 'a list" where
  "insert_comp cmp x [] = [x]"
| "insert_comp cmp x (y # ys) =
     (if cmp x y then x # y # ys else y # insert_comp cmp x ys)"

definition nth_element_sort :: "('a \<Rightarrow> 'a \<Rightarrow> bool) \<Rightarrow> nat \<Rightarrow> 'a list \<Rightarrow> 'a list" where
  "nth_element_sort cmp n xs = foldr (insert_comp cmp) xs []"

text \<open>
  \<open>FrameHandlerBase::optimizeStructure\<close> (lines 190 to 210). The result is the heap after
  the call, or \<open>None\<close> when a Feature points to a Point that the heap does not hold.
\<close>

definition optimizeStructure ::
  "((addr \<Rightarrow> addr \<Rightarrow> bool) \<Rightarrow> nat \<Rightarrow> addr list \<Rightarrow> addr list) \<Rightarrow>
   Frame \<Rightarrow> size_t \<Rightarrow> c_int \<Rightarrow> heap \<Rightarrow> heap option" where
  "optimizeStructure nth_element frame max_n_pts max_iter h =
     (let pts = collect_pts (fts frame);
          n = min (unat max_n_pts) (length pts)
      in if list_ex (\<lambda>p. h p = None) pts then None
         else refine_pts (frame_id frame) max_iter
                (take n (nth_element (cmp_ptr h) n pts)) h)"

text \<open>
  The Points that a run refined are those whose log of \<open>optimize\<close> calls changed, and the
  mark of a Point is its \<open>last_structure_optim_\<close> read as an integer.
\<close>

definition refined :: "heap \<Rightarrow> heap \<Rightarrow> addr set" where
  "refined h h' = {p. map_option optimize_calls (h' p) \<noteq> map_option optimize_calls (h p)}"

definition mark :: "heap \<Rightarrow> addr \<Rightarrow> int" where
  "mark h p = (case h p of None \<Rightarrow> 0 | Some pt \<Rightarrow> sint (last_structure_optim pt))"

subsection \<open>Example inputs\<close>

text \<open>
  A Map with two Points, a candidate and one deferred deletion; a controller over it that
  finished its last frame with 120 observations, in a given stage and with given request
  flags; and thresholds of at least 50 features, at most 120 features and a drop of at
  most 40.
\<close>

definition example_map :: map_state where
  "example_map = \<lparr>points = [1, 2], candidates = [3], trash = [4], calls = []\<rparr>"

definition example_state :: "Stage \<Rightarrow> bool \<Rightarrow> bool \<Rightarrow> FrameHandlerBase" where
  "example_state st reset_pending start_pending =
     \<lparr>stage = st, set_reset = reset_pending, set_start = start_pending, num_obs_last = 120,
      tracking_quality = TRACKING_GOOD, map_obj = example_map\<rparr>"

definition example_config :: Config where
  "example_config = \<lparr>qualityMinFts = 50, maxFts = 120, qualityMaxFtsDrop = 40\<rparr>"

text \<open>
  Four Points with the marks 5, 1, 9 and 3; a frame with id 7 whose Features reference them
  (one Feature has no Point); and a frame two of whose Features reference the same Point.
\<close>

definition example_heap :: heap where
  "example_heap =
     [10 \<mapsto> \<lparr>last_structure_optim = 5, optimize_calls = []\<rparr>,
      11 \<mapsto> \<lparr>last_structure_optim = 1, optimize_calls = []\<rparr>,
      12 \<mapsto> \<lparr>last_structure_optim = 9, optimize_calls = []\<rparr>,
      13 \<mapsto> \<lparr>last_structure_optim = 3, optimize_calls = []\<rparr>]"

definition example_frame :: Frame where
  "example_frame =
     \<lparr>frame_id = 7,
      fts = [\<lparr>point = Some 10\<rparr>, \<lparr>point = Some 11\<rparr>, \<lparr>point = None\<rparr>,
             \<lparr>point = Some 12\<rparr>, \<lparr>point = Some 13\<rparr>]\<rparr>"

definition shared_point_frame :: Frame where
  "shared_point_frame = \<lparr>frame_id = 7, fts = [\<lparr>point = Some 10\<rparr>, \<lparr>point = Some 10\<rparr>]\<rparr>"

section \<open>The lifecycle controller: reset, frame start, frame finish\<close>

text \<open>
  Claim C9. After every call to \<open>resetAll\<close>, from any controller state, the stage is
  Paused, the last observation count is 0, the tracking quality is Insufficient, both
  request flags are cleared, and the Map has been reset: it holds no Points and no
  candidates, and its reset operation was invoked once.
\<close>

theorem resetAll_postcondition:
  "stage (resetAll s) = STAGE_PAUSED
   \<and> num_obs_last (resetAll s) = 0
   \<and> tracking_quality (resetAll s) = TRACKING_INSUFFICIENT
   \<and> set_reset (resetAll s) = False
   \<and> set_start (resetAll s) = False
   \<and> points (map_obj (resetAll s)) = []
   \<and> candidates (map_obj (resetAll s)) = []
   \<and> calls (map_obj (resetAll s)) = calls (map_obj s) @ [CALL_reset]"
  by (simp add: resetAll_def resetCommon_def Map_reset_def)

text \<open>
  Claim C2. Let \<open>s1\<close> be the state after a pending start request has been applied at the
  head of \<open>startFrameProcessingCommon\<close>. The call returns false if and only if the stage
  of \<open>s1\<close> is Paused. When it returns false the final state is \<open>s1\<close>: nothing else happened,
  in particular the Map was not asked to drain its deferred-deletion queue. When it
  returns true the only further effect is one drain of that queue.
\<close>

theorem startFrameProcessing_false_iff_paused:
  "(let s1 = (if set_start s then (resetAll s)\<lparr>stage := STAGE_FIRST_FRAME\<rparr> else s);
        r = fst (startFrameProcessingCommon timestamp s);
        s' = snd (startFrameProcessingCommon timestamp s)
    in (r = False \<longleftrightarrow> stage s1 = STAGE_PAUSED)
       \<and> (r = False \<longrightarrow> s' = s1)
       \<and> (r = True \<longrightarrow>
            calls (map_obj s') = calls (map_obj s1) @ [CALL_emptyTrash]
            \<and> trash (map_obj s') = []
            \<and> s' = s1\<lparr>map_obj := Map_emptyTrash (map_obj s1)\<rparr>))"
  by (simp add: startFrameProcessingCommon_def Let_def Map_emptyTrash_def)

theorem startFrameProcessing_false_iff_paused_witness:
  "fst (startFrameProcessingCommon 0
      (example_state STAGE_PAUSED False False)) = False
   \<and> snd (startFrameProcessingCommon 0
      (example_state STAGE_PAUSED False False)) =
      (example_state STAGE_PAUSED False False)
   \<and> fst (startFrameProcessingCommon 0
      (example_state STAGE_DEFAULT_FRAME False False)) = True
   \<and> calls (map_obj (snd (startFrameProcessingCommon 0
      (example_state STAGE_DEFAULT_FRAME False False)))) = [CALL_emptyTrash]"
  using
    startFrameProcessing_false_iff_paused [of
      "example_state STAGE_PAUSED False False" 0]
    startFrameProcessing_false_iff_paused [of
      "example_state STAGE_DEFAULT_FRAME False False" 0]
  by (simp add: Let_def Map_emptyTrash_def example_state_def example_map_def)

text \<open>
  Claim C10. A pending start request is honoured from any stage: whenever \<open>set_start_\<close>
  is set, \<open>startFrameProcessingCommon\<close> returns true, and the state it leaves is the fully
  reset state with stage FirstFrame and the Map's deferred deletions drained. The start
  flag is cleared, the Map holds no Points, no candidates and an empty queue, and the Map
  saw one reset followed by one drain. The stage at entry plays no role, so a start
  request during DefaultFrame or Relocalizing discards the current map.
\<close>

theorem start_request_honoured_from_any_stage:
  assumes "set_start s"
  shows "fst (startFrameProcessingCommon timestamp s) = True
    \<and> snd (startFrameProcessingCommon timestamp s) =
        (resetAll s)\<lparr>stage := STAGE_FIRST_FRAME,
                     map_obj := Map_emptyTrash (Map_reset (map_obj s))\<rparr>
    \<and> stage (snd (startFrameProcessingCommon timestamp s)) = STAGE_FIRST_FRAME
    \<and> set_start (snd (startFrameProcessingCommon timestamp s)) = False
    \<and> points (map_obj (snd (startFrameProcessingCommon timestamp s))) = []
    \<and> candidates (map_obj (snd (startFrameProcessingCommon timestamp s))) = []
    \<and> trash (map_obj (snd (startFrameProcessingCommon timestamp s))) = []
    \<and> calls (map_obj (snd (startFrameProcessingCommon timestamp s))) =
        calls (map_obj s) @ [CALL_reset, CALL_emptyTrash]"
  using assms
  by (simp add: startFrameProcessingCommon_def Let_def resetAll_def resetCommon_def
      Map_reset_def Map_emptyTrash_def)

theorem start_request_honoured_from_any_stage_witness:
  "set_start (example_state STAGE_DEFAULT_FRAME False True)
   \<and> fst (startFrameProcessingCommon 0
      (example_state STAGE_DEFAULT_FRAME False True)) = True
   \<and> stage (snd (startFrameProcessingCommon 0
      (example_state STAGE_DEFAULT_FRAME False True))) = STAGE_FIRST_FRAME
   \<and> points (map_obj (snd (startFrameProcessingCommon 0
      (example_state STAGE_DEFAULT_FRAME False True)))) = []"
  using start_request_honoured_from_any_stage [of
      "example_state STAGE_DEFAULT_FRAME False True" 0]
  by (simp add: Map_reset_def Map_emptyTrash_def example_state_def example_map_def)

text \<open>
  Claim C4. In stage FirstFrame, \<open>finishFrameProcessingCommon\<close> with result Failure
  performs a full reset and then sets \<open>set_start_\<close>: the state it leaves is the reset
  state with the start flag set, so the stage is Paused and a start is requested. The
  next \<open>startFrameProcessingCommon\<close> call returns true and leaves stage FirstFrame.
\<close>

theorem bootstrap_failure_resets_and_restarts:
  assumes "stage s = STAGE_FIRST_FRAME"
  shows "(let s1 = snd (finishFrameProcessingCommon update_id RESULT_FAILURE n s)
          in s1 = (resetAll (s\<lparr>num_obs_last := n\<rparr>))\<lparr>set_start := True\<rparr>
             \<and> stage s1 = STAGE_PAUSED
             \<and> set_start s1 = True
             \<and> fst (startFrameProcessingCommon timestamp s1) = True
             \<and> stage (snd (startFrameProcessingCommon timestamp s1)) = STAGE_FIRST_FRAME)"
  using assms
  by (simp add: finishFrameProcessingCommon_def startFrameProcessingCommon_def Let_def
      resetAll_def resetCommon_def)

theorem bootstrap_failure_resets_and_restarts_witness:
  "stage (example_state STAGE_FIRST_FRAME True False) = STAGE_FIRST_FRAME
   \<and> stage (snd (finishFrameProcessingCommon 7 RESULT_FAILURE 30
      (example_state STAGE_FIRST_FRAME True False))) = STAGE_PAUSED
   \<and> set_start (snd (finishFrameProcessingCommon 7 RESULT_FAILURE 30
      (example_state STAGE_FIRST_FRAME True False))) = True
   \<and> fst (startFrameProcessingCommon 1 (snd (finishFrameProcessingCommon 7 RESULT_FAILURE 30
      (example_state STAGE_FIRST_FRAME True False)))) = True
   \<and> stage (snd (startFrameProcessingCommon 1 (snd (finishFrameProcessingCommon 7 RESULT_FAILURE 30
      (example_state STAGE_FIRST_FRAME True False))))) = STAGE_FIRST_FRAME"
proof -
  have h: "stage (example_state STAGE_FIRST_FRAME True False) = STAGE_FIRST_FRAME"
    by (simp add: example_state_def)
  from bootstrap_failure_resets_and_restarts [OF h, of 7 30 1] h
  show ?thesis
    unfolding Let_def by blast
qed

text \<open>
  Claim C6. In stage FirstFrame, \<open>finishFrameProcessingCommon\<close> with result Failure gives
  the same result and the same state whether \<open>set_reset_\<close> was set or clear at entry. (The
  reset of the failure branch clears the flag, so the later test of the flag finds it
  clear and no second reset runs.)
\<close>

theorem pending_reset_after_bootstrap_failure_changes_nothing:
  assumes "stage s = STAGE_FIRST_FRAME"
  shows "finishFrameProcessingCommon update_id RESULT_FAILURE n (s\<lparr>set_reset := True\<rparr>)
       = finishFrameProcessingCommon update_id RESULT_FAILURE n (s\<lparr>set_reset := False\<rparr>)"
  using assms
  by (simp add: finishFrameProcessingCommon_def Let_def resetAll_def resetCommon_def)

theorem pending_reset_after_bootstrap_failure_changes_nothing_witness:
  "stage (example_state STAGE_FIRST_FRAME False False) = STAGE_FIRST_FRAME
   \<and> finishFrameProcessingCommon 7 RESULT_FAILURE 30
      (example_state STAGE_FIRST_FRAME True False)
     = finishFrameProcessingCommon 7 RESULT_FAILURE 30
      (example_state STAGE_FIRST_FRAME False False)"
  using pending_reset_after_bootstrap_failure_changes_nothing [of
      "example_state STAGE_FIRST_FRAME False False" 7 30]
  by (simp add: example_state_def)

text \<open>
  Claim C3, as stated, fails when a reset request is pending: from stage DefaultFrame with
  \<open>set_reset_\<close> set, a Failure result ends in stage Paused with the Map's Points dropped.
\<close>

theorem soft_failure_with_pending_reset_counterexample:
  "stage (snd (finishFrameProcessingCommon 7 RESULT_FAILURE 30
      (example_state STAGE_DEFAULT_FRAME True False))) = STAGE_PAUSED
   \<and> points (map_obj (snd (finishFrameProcessingCommon 7 RESULT_FAILURE 30
      (example_state STAGE_DEFAULT_FRAME True False)))) = []
   \<and> points (map_obj
      (example_state STAGE_DEFAULT_FRAME True False)) = [1, 2]"
  by (simp add: finishFrameProcessingCommon_def Let_def resetAll_def resetCommon_def
      Map_reset_def example_state_def example_map_def)

text \<open>
  Claim C3, amended. In stage DefaultFrame or Relocalizing and with no reset request
  pending, \<open>finishFrameProcessingCommon\<close> with result Failure sets the stage to
  Relocalizing and the tracking quality to Insufficient and leaves the Map untouched:
  apart from the recorded observation count, nothing else changes.
\<close>

theorem soft_failure_relocalizes_and_keeps_map:
  assumes "stage s = STAGE_DEFAULT_FRAME \<or> stage s = STAGE_RELOCALIZING"
    and "set_reset s = False"
  shows "(let s' = snd (finishFrameProcessingCommon update_id RESULT_FAILURE n s)
          in stage s' = STAGE_RELOCALIZING
             \<and> tracking_quality s' = TRACKING_INSUFFICIENT
             \<and> map_obj s' = map_obj s
             \<and> s' = s\<lparr>num_obs_last := n, stage := STAGE_RELOCALIZING,
                       tracking_quality := TRACKING_INSUFFICIENT\<rparr>)"
  using assms
  by (auto simp add: finishFrameProcessingCommon_def Let_def)

theorem soft_failure_relocalizes_and_keeps_map_witness:
  "(stage (example_state STAGE_DEFAULT_FRAME False False) = STAGE_DEFAULT_FRAME
    \<or> stage (example_state STAGE_DEFAULT_FRAME False False) = STAGE_RELOCALIZING)
   \<and> set_reset (example_state STAGE_DEFAULT_FRAME False False) = False
   \<and> stage (snd (finishFrameProcessingCommon 7 RESULT_FAILURE 30
      (example_state STAGE_DEFAULT_FRAME False False))) = STAGE_RELOCALIZING
   \<and> tracking_quality (snd (finishFrameProcessingCommon 7 RESULT_FAILURE 30
      (example_state STAGE_DEFAULT_FRAME False False))) = TRACKING_INSUFFICIENT
   \<and> map_obj (snd (finishFrameProcessingCommon 7 RESULT_FAILURE 30
      (example_state STAGE_DEFAULT_FRAME False False))) =
      example_map"
  using soft_failure_relocalizes_and_keeps_map [of
      "example_state STAGE_DEFAULT_FRAME False False" 7 30]
  by (simp add: Let_def example_state_def)

text \<open>
  Claim C5, as stated, fails whenever the call performs a full reset: with a reset request
  pending, finishing a frame with 100 observations leaves the last observation count 0.
\<close>

theorem num_obs_last_after_reset_counterexample:
  "num_obs_last (snd (finishFrameProcessingCommon 7 RESULT_NORMAL 100
      (example_state STAGE_DEFAULT_FRAME True False))) \<noteq> 100"
  by (simp add: finishFrameProcessingCommon_def Let_def resetAll_def resetCommon_def
      Map_reset_def example_state_def example_map_def)

text \<open>
  Claim C5, amended. After \<open>finishFrameProcessingCommon\<close> returns, the last observation
  count is the observation count passed in, unless the call performed a full reset (a
  reset request was pending, or the result was Failure in a stage other than DefaultFrame
  and Relocalizing); then it is 0.
\<close>

theorem num_obs_last_after_finish:
  "num_obs_last (snd (finishFrameProcessingCommon update_id dropout n s)) =
     (if set_reset s \<or> (dropout = RESULT_FAILURE \<and> stage s \<noteq> STAGE_DEFAULT_FRAME
                          \<and> stage s \<noteq> STAGE_RELOCALIZING)
      then 0 else n)"
  by (simp add: finishFrameProcessingCommon_def Let_def resetAll_def resetCommon_def)

theorem num_obs_last_after_finish_witness:
  "num_obs_last (snd (finishFrameProcessingCommon 7 RESULT_KEYFRAME 100
      (example_state STAGE_DEFAULT_FRAME False False))) = 100
   \<and> num_obs_last (snd (finishFrameProcessingCommon 7 RESULT_FAILURE 100
      (example_state STAGE_FIRST_FRAME False False))) = 0"
  using
    num_obs_last_after_finish [of 7 RESULT_KEYFRAME 100
      "example_state STAGE_DEFAULT_FRAME False False"]
    num_obs_last_after_finish [of 7 RESULT_FAILURE 100
      "example_state STAGE_FIRST_FRAME False False"]
  by (simp add: example_state_def)

section \<open>Stage transitions along sequences of calls\<close>

lemma step_stage_move: "stage_move c s (stage (step cfg c s))"
  by (cases c)
     (auto simp add: startFrameProcessingCommon_def finishFrameProcessingCommon_def Let_def
        resetAll_def resetCommon_def requestReset_def requestStart_def setTrackingQuality_def)

text \<open>
  Claim C1, as stated, fails: a start request issued while the stage is DefaultFrame takes
  the stage from DefaultFrame (observed before \<open>startFrameProcessing\<close>) to FirstFrame
  (observed after it), which is not among the moves the claim admits.
\<close>

theorem stage_closure_counterexample:
  "\<not> spec_stage_move
      (stage (run example_config [RequestStart, StartFrameProcessing 0]
        (example_state STAGE_DEFAULT_FRAME False False) ! 1))
      (stage (run example_config [RequestStart, StartFrameProcessing 0]
        (example_state STAGE_DEFAULT_FRAME False False) ! 2))"
  by (simp add: spec_stage_move_def startFrameProcessingCommon_def requestStart_def Let_def
      resetAll_def resetCommon_def example_state_def)

text \<open>
  Claim C1, amended. Along every sequence of calls from every controller state, the stage
  observed after a call differs from the stage observed before it only in these ways: it
  becomes FirstFrame, by \<open>startFrameProcessing\<close> with a start request pending (from any
  stage); it becomes Relocalizing, by \<open>finishFrameProcessing\<close> with result Failure in
  stage DefaultFrame or Relocalizing and no reset request pending; it becomes Paused, by
  \<open>resetAll\<close>, or by \<open>finishFrameProcessing\<close> with a reset request pending or with result
  Failure in a stage other than DefaultFrame and Relocalizing.
\<close>

theorem stage_moves_along_every_run:
  "i < length cs \<Longrightarrow> stage_move (cs ! i) (run cfg cs s ! i) (stage (run cfg cs s ! Suc i))"
proof (induction cs arbitrary: s i)
  case Nil
  then show ?case by simp
next
  case (Cons c cs)
  show ?case
  proof (cases i)
    case 0
    have "run cfg cs (step cfg c s) ! 0 = step cfg c s"
      by (cases cs) simp_all
    with 0 show ?thesis
      by (simp add: step_stage_move)
  next
    case (Suc j)
    with Cons.prems have "j < length cs" by simp
    from Cons.IH [OF this, of "step cfg c s"] Suc show ?thesis
      by simp
  qed
qed

theorem stage_moves_along_every_run_witness:
  "1 < length [RequestStart, StartFrameProcessing 0, FinishFrameProcessing 7 RESULT_FAILURE 30]
   \<and> stage_move
        ([RequestStart, StartFrameProcessing 0, FinishFrameProcessing 7 RESULT_FAILURE 30] ! 1)
        (run example_config
           [RequestStart, StartFrameProcessing 0, FinishFrameProcessing 7 RESULT_FAILURE 30]
           (example_state STAGE_DEFAULT_FRAME False False) ! 1)
        (stage (run example_config
           [RequestStart, StartFrameProcessing 0, FinishFrameProcessing 7 RESULT_FAILURE 30]
           (example_state STAGE_DEFAULT_FRAME False False) ! Suc 1))"
proof -
  have h: "1 < length [RequestStart, StartFrameProcessing 0,
                       FinishFrameProcessing 7 RESULT_FAILURE 30]"
    by simp
  from stage_moves_along_every_run [OF h] h show ?thesis
    by blast
qed

section \<open>The quality gate\<close>

text \<open>
  Line 173 computes the feature drop in 32-bit arithmetic: it is the difference of the two
  counts truncated to 32 bits, read as a signed number. For counts below \<open>2 ^ 31\<close> this is
  the difference of the counts.
\<close>

lemma take_bit_32_diff_64:
  "take_bit 32 (take_bit 64 a - take_bit 64 b) = take_bit 32 (a - b)" for a b :: int
proof -
  have "take_bit 32 (take_bit 64 a - take_bit 64 b)
      = take_bit 32 (take_bit 32 (take_bit 64 a) - take_bit 32 (take_bit 64 b))"
    by (simp only: take_bit_diff)
  also have "\<dots> = take_bit 32 (take_bit 32 a - take_bit 32 b)"
    by (simp only: take_bit_take_bit)
  also have "\<dots> = take_bit 32 (a - b)"
    by (simp only: take_bit_diff)
  finally show ?thesis .
qed

lemma ucast_down_diff: "(ucast ((a::64 word) - b) :: 32 word) = ucast a - ucast b"
  by transfer (simp add: take_bit_32_diff_64)

lemma ucast_scast_32: "(ucast (scast (c::32 word) :: 64 word) :: 32 word) = c"
  by (rule bit_word_eqI) (auto simp add: bit_simps)

lemma feature_drop_eq:
  "feature_drop cfg l n = (ucast (min l (maxFts cfg)) :: 32 word) - ucast n"
  by (simp add: feature_drop_def ucast_down_diff ucast_scast_32)

lemma sint_ucast_small:
  "uint (x::64 word) < 2 ^ 31 \<Longrightarrow> sint (ucast x :: 32 word) = uint x"
proof -
  assume small: "uint x < 2 ^ 31"
  have "sint (ucast x :: 32 word) = signed_take_bit 31 (uint x)"
    using signed_ucast_eq [where ?'c = 32, of x] by simp
  also have "\<dots> = uint x"
  proof (rule signed_take_bit_int_eq_self)
    have "(0::int) \<le> uint x" by simp
    then show "- (2 ^ 31) \<le> uint x" by (rule order_trans [rotated]) simp
  qed (rule small)
  finally show ?thesis .
qed

lemma sint_diff_small:
  fixes a b :: "64 word"
  assumes "uint a < 2 ^ 31" "uint b < 2 ^ 31"
  shows "sint ((ucast a :: 32 word) - ucast b) = uint a - uint b"
proof -
  have "sint ((ucast a :: 32 word) - ucast b)
      = signed_take_bit 31 (sint (ucast a :: 32 word) - sint (ucast b :: 32 word))"
    using sint_word_diff [of "ucast a :: 32 word" "ucast b"] by simp
  also have "\<dots> = signed_take_bit 31 (uint a - uint b)"
    using assms by (simp only: sint_ucast_small)
  also have "\<dots> = uint a - uint b"
  proof (rule signed_take_bit_int_eq_self)
    have "(0::int) \<le> uint a" "(0::int) \<le> uint b" by simp_all
    with assms show "- (2 ^ 31) \<le> uint a - uint b" "uint a - uint b < 2 ^ 31"
      by linarith+
  qed
  finally show ?thesis .
qed

lemma feature_drop_small:
  assumes "uint (min l (maxFts cfg)) < 2 ^ 31" "uint n < 2 ^ 31"
  shows "sint (feature_drop cfg l n) = uint (min l (maxFts cfg)) - uint n"
  using assms by (simp only: feature_drop_eq sint_diff_small)

lemma quality_code:
  "tracking_quality (setTrackingQuality cfg n s) =
     (if n < qualityMinFts cfg
         \<or> sint (qualityMaxFtsDrop cfg) < sint (feature_drop cfg (num_obs_last s) n)
      then TRACKING_INSUFFICIENT else TRACKING_GOOD)"
  by (simp add: setTrackingQuality_def Let_def)

text \<open>
  Claim C7, as stated, fails for counts that do not fit a 32-bit \<open>int\<close>: with no previous
  observations and \<open>2 ^ 32 - 100\<close> observations now, the count is not below the minimum
  of 50 and the drop \<open>0 - (2 ^ 32 - 100)\<close> does not exceed the allowed 40, yet the code
  computes a drop of 100 and reports Insufficient.
\<close>

theorem quality_gate_wraparound_counterexample:
  "qualityMinFts example_config \<le> (4294967196::size_t)
   \<and> uint (min (num_obs_last (FrameHandlerBase_init example_map))
              (maxFts example_config))
        - uint (4294967196::size_t)
       \<le> sint (qualityMaxFtsDrop example_config)
   \<and> tracking_quality (setTrackingQuality
        example_config 4294967196
        (FrameHandlerBase_init example_map))
       = TRACKING_INSUFFICIENT"
  by (simp add: quality_code feature_drop_eq FrameHandlerBase_init_def example_config_def)

text \<open>
  Claim C7, amended. \<open>setTrackingQuality n\<close> yields Insufficient whenever \<open>n\<close> is below
  \<open>qualityMinFts\<close>, whatever the drop. When \<open>min (num_obs_last_, maxFts)\<close> and \<open>n\<close> are
  both below \<open>2 ^ 31\<close>, so that the drop \<open>min (num_obs_last_, maxFts) - n\<close> is what the
  32-bit computation yields, the result is Good if \<open>n\<close> is at least \<open>qualityMinFts\<close> and the
  drop does not exceed \<open>qualityMaxFtsDrop\<close>, and Insufficient if the drop exceeds it. In
  every case the result is decided by the two tests alone, each made on its own, and not by
  the quality before the call.
\<close>

theorem setTrackingQuality_gate:
  "(n < qualityMinFts cfg \<longrightarrow>
      tracking_quality (setTrackingQuality cfg n s) = TRACKING_INSUFFICIENT)
   \<and> (uint (min (num_obs_last s) (maxFts cfg)) < 2 ^ 31 \<and> uint n < 2 ^ 31 \<longrightarrow>
        (let drop = uint (min (num_obs_last s) (maxFts cfg)) - uint n
         in (qualityMinFts cfg \<le> n \<and> drop \<le> sint (qualityMaxFtsDrop cfg) \<longrightarrow>
               tracking_quality (setTrackingQuality cfg n s) = TRACKING_GOOD)
            \<and> (sint (qualityMaxFtsDrop cfg) < drop \<longrightarrow>
               tracking_quality (setTrackingQuality cfg n s) = TRACKING_INSUFFICIENT)))
   \<and> tracking_quality (setTrackingQuality cfg n s) =
        (if n < qualityMinFts cfg
            \<or> sint (qualityMaxFtsDrop cfg)
                < sint ((ucast (min (num_obs_last s) (maxFts cfg)) :: c_int) - ucast n)
         then TRACKING_INSUFFICIENT else TRACKING_GOOD)"
proof (intro conjI)
  show "n < qualityMinFts cfg \<longrightarrow>
      tracking_quality (setTrackingQuality cfg n s) = TRACKING_INSUFFICIENT"
    by (simp add: quality_code)
  show "uint (min (num_obs_last s) (maxFts cfg)) < 2 ^ 31 \<and> uint n < 2 ^ 31 \<longrightarrow>
        (let drop = uint (min (num_obs_last s) (maxFts cfg)) - uint n
         in (qualityMinFts cfg \<le> n \<and> drop \<le> sint (qualityMaxFtsDrop cfg) \<longrightarrow>
               tracking_quality (setTrackingQuality cfg n s) = TRACKING_GOOD)
            \<and> (sint (qualityMaxFtsDrop cfg) < drop \<longrightarrow>
               tracking_quality (setTrackingQuality cfg n s) = TRACKING_INSUFFICIENT))"
    by (auto simp add: quality_code feature_drop_small Let_def)
  show "tracking_quality (setTrackingQuality cfg n s) =
        (if n < qualityMinFts cfg
            \<or> sint (qualityMaxFtsDrop cfg)
                < sint ((ucast (min (num_obs_last s) (maxFts cfg)) :: c_int) - ucast n)
         then TRACKING_INSUFFICIENT else TRACKING_GOOD)"
    by (simp only: quality_code feature_drop_eq)
qed

theorem setTrackingQuality_gate_witness:
  "(30::size_t) < qualityMinFts example_config
   \<and> tracking_quality (setTrackingQuality example_config 30
        (example_state STAGE_DEFAULT_FRAME False False)) = TRACKING_INSUFFICIENT
   \<and> uint (min (num_obs_last (example_state STAGE_DEFAULT_FRAME False False))
              (maxFts example_config)) < 2 ^ 31
   \<and> uint (110::size_t) < 2 ^ 31
   \<and> qualityMinFts example_config \<le> (110::size_t)
   \<and> tracking_quality (setTrackingQuality example_config 110
        (example_state STAGE_DEFAULT_FRAME False False)) = TRACKING_GOOD
   \<and> uint (60::size_t) < 2 ^ 31
   \<and> sint (qualityMaxFtsDrop example_config)
       < uint (min (num_obs_last (example_state STAGE_DEFAULT_FRAME False False))
                (maxFts example_config)) - uint (60::size_t)
   \<and> tracking_quality (setTrackingQuality example_config 60
        (example_state STAGE_DEFAULT_FRAME False False)) = TRACKING_INSUFFICIENT"
  using
    setTrackingQuality_gate [of 30 example_config
      "example_state STAGE_DEFAULT_FRAME False False"]
    setTrackingQuality_gate [of 110 example_config
      "example_state STAGE_DEFAULT_FRAME False False"]
    setTrackingQuality_gate [of 60 example_config
      "example_state STAGE_DEFAULT_FRAME False False"]
  by (simp add: Let_def example_state_def example_config_def)

section \<open>The structure optimizer: which Points are refined\<close>

lemma collect_pts_set:
  "set (collect_pts fs) = {p. \<exists>ft\<in>set fs. point ft = Some p}"
  by (induction fs) (auto split: option.splits)

lemma refine_pts_result:
  "set ps \<subseteq> dom h \<Longrightarrow>
   \<exists>h'. refine_pts fid max_iter ps h = Some h'
        \<and> (\<forall>p. h' p = (if p \<in> set ps
                        then map_option (\<lambda>pt. pt\<lparr>last_structure_optim := fid,
                               optimize_calls :=
                                 optimize_calls pt @ replicate (count_list ps p) max_iter\<rparr>) (h p)
                        else h p))"
proof (induction ps arbitrary: h)
  case Nil
  then show ?case by simp
next
  case (Cons a ps)
  from Cons.prems obtain pt where pt: "h a = Some pt" by auto
  let ?h1 = "h(a \<mapsto> (Point_optimize max_iter pt)\<lparr>last_structure_optim := fid\<rparr>)"
  have "set ps \<subseteq> dom ?h1"
    using Cons.prems by auto
  from Cons.IH [OF this] obtain h' where
    run: "refine_pts fid max_iter ps ?h1 = Some h'"
    and upd: "\<And>p. h' p = (if p \<in> set ps
                   then map_option (\<lambda>pt. pt\<lparr>last_structure_optim := fid,
                          optimize_calls :=
                            optimize_calls pt @ replicate (count_list ps p) max_iter\<rparr>) (?h1 p)
                   else ?h1 p)"
    by blast
  have "h' p = (if p \<in> set (a # ps)
                   then map_option (\<lambda>pt. pt\<lparr>last_structure_optim := fid,
                          optimize_calls :=
                            optimize_calls pt @ replicate (count_list (a # ps) p) max_iter\<rparr>) (h p)
                   else h p)" for p
  proof (cases "p = a")
    case True
    show ?thesis
    proof (cases "a \<in> set ps")
      case True
      with \<open>p = a\<close> pt upd [of a] show ?thesis
        by (simp add: Point_optimize_def replicate_append_same)
    next
      case False
      with \<open>p = a\<close> pt upd [of a] show ?thesis
        by (simp add: Point_optimize_def)
    qed
  next
    case False
    with upd [of p] show ?thesis by simp
  qed
  with run pt show ?case by simp
qed

lemma cmp_ptr_mark:
  "a \<in> dom h \<Longrightarrow> b \<in> dom h \<Longrightarrow> cmp_ptr h a b \<longleftrightarrow> mark h a < mark h b"
  by (auto simp add: cmp_ptr_def mark_def ptLastOptimComparator_def)

lemma count_list_take_le: "count_list (take n ys) p \<le> count_list ys p"
proof -
  have "count_list ys p = count_list (take n ys) p + count_list (drop n ys) p"
    by (metis append_take_drop_id count_list_append)
  then show ?thesis by simp
qed

lemma nth_element_post_facts:
  assumes "nth_element_post cmp n xs ys"
  shows "set (take n ys) \<subseteq> set xs"
    and "card (set (take n ys)) \<le> n"
    and "set xs - set (take n ys) \<subseteq> set (drop n ys)"
    and "\<forall>a\<in>set (take n ys). \<forall>b\<in>set (drop n ys). \<not> cmp b a"
    and "count_list (take n ys) p \<le> count_list xs p"
    and "distinct xs \<Longrightarrow> n \<le> length xs \<Longrightarrow> card (set (take n ys)) = n"
    and "distinct xs \<Longrightarrow> count_list (take n ys) p \<le> 1"
proof -
  from assms have m: "mset ys = mset xs"
    and sel: "list_all (\<lambda>i. list_all (\<lambda>j. \<not> cmp j i) (drop n ys)) (take n ys)"
    unfolding nth_element_post_def by blast+
  from m have s: "set ys = set xs" by (rule mset_eq_setD)
  from m have l: "length ys = length xs" by (rule mset_eq_length)
  show "set (take n ys) \<subseteq> set xs"
    using s set_take_subset [of n ys] by simp
  have "card (set (take n ys)) \<le> length (take n ys)"
    by (rule card_length)
  then show "card (set (take n ys)) \<le> n"
    by simp
  have "set ys = set (take n ys) \<union> set (drop n ys)"
    by (metis append_take_drop_id set_append)
  then show "set xs - set (take n ys) \<subseteq> set (drop n ys)"
    using s by auto
  show "\<forall>a\<in>set (take n ys). \<forall>b\<in>set (drop n ys). \<not> cmp b a"
    using sel by (simp add: list_all_iff)
  have c: "count_list ys p = count_list xs p"
    using m by (metis count_mset)
  show le: "count_list (take n ys) p \<le> count_list xs p"
    using count_list_take_le [of n ys p] c by simp
  {
    assume d: "distinct xs"
    have dy: "distinct ys" using mset_eq_imp_distinct_iff [OF m] d by blast
    then have "distinct (take n ys)" by simp
    then have "card (set (take n ys)) = length (take n ys)"
      by (rule distinct_card)
    then show "n \<le> length xs \<Longrightarrow> card (set (take n ys)) = n"
      using l by simp
    have "count_list xs p \<le> 1"
      using d by (metis count_mset distinct_count_atmost_1 le_refl zero_le_one)
    with le show "count_list (take n ys) p \<le> 1"
      by simp
  }
qed

lemma two_least_of_four:
  fixes f :: "'a \<Rightarrow> int"
  assumes dist: "distinct pts"
    and marks: "mset (map f pts) = {#5, 1, 9, 3#}"
    and sub: "R \<subseteq> set pts"
    and card2: "card R = 2"
    and least: "\<forall>p\<in>R. \<forall>q\<in>set pts - R. f p \<le> f q"
  shows "R = {p \<in> set pts. f p = 1 \<or> f p = 3}"
proof -
  have "set_mset (mset (map f pts)) = set_mset {#5, 1, 9, 3#}"
    using marks by simp
  then have img: "f ` set pts = {5, 1, 9, 3}"
    by simp
  have "size (mset (map f pts)) = size {#5, 1, 9, 3::int#}"
    using marks by simp
  then have len: "length pts = 4"
    by simp
  have "card (f ` set pts) = card (set pts)"
    using img len dist by (simp add: distinct_card)
  then have inj: "inj_on f (set pts)"
    by (intro eq_card_imp_inj_on) simp_all
  have finR: "finite R"
    using sub by (rule finite_subset) simp
  from img obtain p1 where p1: "p1 \<in> set pts" "f p1 = 1"
    by (metis imageE insertI1 insert_commute)
  from img obtain p3 where p3: "p3 \<in> set pts" "f p3 = 3"
    by (metis imageE insertI1 insert_commute)
  have ne: "p1 \<noteq> p3"
    using p1 p3 by auto
  have injD: "x = y" if "x \<in> set pts" "y \<in> set pts" "f x = f y" for x y
    using inj that by (simp add: inj_on_def)
  have T: "{p \<in> set pts. f p = 1 \<or> f p = 3} = {p1, p3}"
  proof (intro set_eqI iffI)
    fix x assume "x \<in> {p \<in> set pts. f p = 1 \<or> f p = 3}"
    then have "x \<in> set pts" "f x = f p1 \<or> f x = f p3"
      using p1 p3 by simp_all
    then show "x \<in> {p1, p3}"
      using injD p1(1) p3(1) by blast
  next
    fix x assume "x \<in> {p1, p3}"
    then show "x \<in> {p \<in> set pts. f p = 1 \<or> f p = 3}"
      using p1 p3 by auto
  qed
  have "R \<subseteq> {p1, p3}"
  proof
    fix p assume pR: "p \<in> R"
    show "p \<in> {p1, p3}"
    proof (rule ccontr)
      assume no: "p \<notin> {p1, p3}"
      from pR sub have pin: "p \<in> set pts" by auto
      with img have "f p \<in> {5, 1, 9, 3}" by blast
      moreover have "f p \<noteq> 1" "f p \<noteq> 3"
        using no p1 p3 pin injD by auto
      ultimately have big: "5 \<le> f p" by auto
      have "p1 \<in> R"
        using least pR p1 big by force
      moreover have "p3 \<in> R"
        using least pR p3 big by force
      ultimately have "{p, p1, p3} \<subseteq> R"
        using pR by simp
      then have "card {p, p1, p3} \<le> card R"
        using finR by (rule card_mono [rotated])
      moreover have "card {p, p1, p3} = 3"
        using no ne by auto
      ultimately show False
        using card2 by simp
    qed
  qed
  moreover have "card {p1, p3} = 2"
    using ne by auto
  ultimately have "R = {p1, p3}"
    using card2 by (intro card_subset_eq) simp_all
  with T show ?thesis by simp
qed

lemma refined_after_refine:
  assumes "set ps \<subseteq> dom h"
    and "\<forall>p. h' p = (if p \<in> set ps
            then map_option (\<lambda>pt. pt\<lparr>last_structure_optim := fid,
                   optimize_calls := optimize_calls pt @ replicate (count_list ps p) max_iter\<rparr>) (h p)
            else h p)"
  shows "refined h h' = set ps"
proof -
  have "map_option optimize_calls (h' p) \<noteq> map_option optimize_calls (h p) \<longleftrightarrow> p \<in> set ps" for p
  proof (cases "p \<in> set ps")
    case True
    with assms(1) obtain pt where "h p = Some pt" by auto
    moreover from True have "count_list ps p \<noteq> 0"
      by (simp add: count_list_0_iff)
    ultimately show ?thesis
      using True assms(2) by simp
  next
    case False
    with assms(2) show ?thesis by simp
  qed
  then show ?thesis
    by (auto simp add: refined_def)
qed

text \<open>
  Insertion sort with the comparator meets the postcondition of \<open>std::nth_element\<close> on
  every list of pointers to Points that the heap holds, so the assumption the next theorem
  makes on the selection algorithm can always be met.
\<close>

lemma insert_comp_mset: "mset (insert_comp cmp x ys) = add_mset x (mset ys)"
  by (induction ys) simp_all

lemma nth_element_sort_mset: "mset (nth_element_sort cmp n xs) = mset xs"
  by (induction xs) (simp_all add: nth_element_sort_def insert_comp_mset)

lemma insert_comp_sorted:
  fixes k :: "'a \<Rightarrow> int"
  assumes "\<forall>a\<in>insert x (set ys). \<forall>b\<in>insert x (set ys). cmp a b \<longleftrightarrow> k a < k b"
    and "sorted_wrt (\<lambda>a b. k a \<le> k b) ys"
  shows "sorted_wrt (\<lambda>a b. k a \<le> k b) (insert_comp cmp x ys)"
  using assms
proof (induction ys)
  case Nil
  then show ?case by simp
next
  case (Cons y ys)
  have s: "set (insert_comp cmp x ys) = insert x (set ys)"
    using insert_comp_mset [of cmp x ys] by (metis set_mset_add_mset_insert set_mset_mset)
  show ?case
  proof (cases "cmp x y")
    case True
    with Cons.prems have "k x < k y" by simp
    with Cons.prems(2) True show ?thesis by fastforce
  next
    case False
    with Cons.prems(1) have le: "k y \<le> k x" by (simp add: not_less)
    have "sorted_wrt (\<lambda>a b. k a \<le> k b) (insert_comp cmp x ys)"
      using Cons.prems by (intro Cons.IH) auto
    with False le Cons.prems(2) s show ?thesis by auto
  qed
qed

lemma nth_element_sort_sorted:
  fixes k :: "'a \<Rightarrow> int"
  assumes "\<forall>a\<in>set xs. \<forall>b\<in>set xs. cmp a b \<longleftrightarrow> k a < k b"
  shows "sorted_wrt (\<lambda>a b. k a \<le> k b) (nth_element_sort cmp n xs)"
  using assms
proof (induction xs)
  case Nil
  then show ?case by (simp add: nth_element_sort_def)
next
  case (Cons x xs)
  have s: "set (nth_element_sort cmp n xs) = set xs"
    using nth_element_sort_mset [of cmp n xs] by (rule mset_eq_setD)
  have "sorted_wrt (\<lambda>a b. k a \<le> k b) (nth_element_sort cmp n xs)"
    using Cons.prems by (intro Cons.IH) simp
  then have "sorted_wrt (\<lambda>a b. k a \<le> k b) (insert_comp cmp x (nth_element_sort cmp n xs))"
    using Cons.prems s by (intro insert_comp_sorted) simp_all
  then show ?case by (simp add: nth_element_sort_def)
qed
lemma nth_element_sort_post:
  assumes "set pts \<subseteq> dom h"
  shows "nth_element_post (cmp_ptr h) n pts (nth_element_sort (cmp_ptr h) n pts)"
proof -
  let ?ys = "nth_element_sort (cmp_ptr h) n pts"
  have k: "\<forall>a\<in>set pts. \<forall>b\<in>set pts. cmp_ptr h a b \<longleftrightarrow> mark h a < mark h b"
  proof (intro ballI)
    fix a b assume "a \<in> set pts" "b \<in> set pts"
    then have "a \<in> dom h" "b \<in> dom h"
      using assms by auto
    then show "cmp_ptr h a b \<longleftrightarrow> mark h a < mark h b"
      by (rule cmp_ptr_mark)
  qed
  have s: "set ?ys = set pts"
    using nth_element_sort_mset [of "cmp_ptr h" n pts] by (rule mset_eq_setD)
  have "sorted_wrt (\<lambda>a b. mark h a \<le> mark h b) (take n ?ys @ drop n ?ys)"
    using nth_element_sort_sorted [OF k] by simp
  then have "\<forall>a\<in>set (take n ?ys). \<forall>b\<in>set (drop n ?ys). mark h a \<le> mark h b"
    unfolding sorted_wrt_append by blast
  moreover have "set (take n ?ys) \<subseteq> set pts" "set (drop n ?ys) \<subseteq> set pts"
    using s set_take_subset [of n ?ys] set_drop_subset [of n ?ys] by simp_all
  ultimately have "\<forall>a\<in>set (take n ?ys). \<forall>b\<in>set (drop n ?ys). \<not> cmp_ptr h b a"
    using k by (meson not_less subsetD)
  then show ?thesis
    by (simp add: nth_element_post_def nth_element_sort_mset list_all_iff)
qed

text \<open>
  Claim C8, as stated, fails when two Features of the frame reference the same Point: the
  deque then holds the pointer twice, both copies are among the first \<open>max_n_pts\<close>
  entries, and the Point is refined twice in one call.
\<close>

theorem shared_point_refined_twice_counterexample:
  "(case optimizeStructure nth_element_sort shared_point_frame 2 10 example_heap of
      None \<Rightarrow> None
    | Some h' \<Rightarrow> map_option optimize_calls (h' 10)) = Some [10, 10]"
  by (simp add: optimizeStructure_def shared_point_frame_def example_heap_def Let_def
      nth_element_sort_def cmp_ptr_def ptLastOptimComparator_def Point_optimize_def)

text \<open>
  Claim C8, amended. Let the Features of the frame reference Points held by the heap, and
  let \<open>std::nth_element\<close> meet its postcondition. Then \<open>optimizeStructure\<close> returns, and
  with the candidates being the Points referenced by the frame's Features (Features
  without a Point are skipped) the set \<open>R\<close> of refined Points always satisfies: \<open>R\<close>
  consists of candidates; \<open>R\<close> has at most \<open>min (max_n_pts, number of candidates)\<close>
  elements; no refined Point has a larger mark than a candidate that was not refined; each
  refined Point received only \<open>optimize (max_iter)\<close> calls, at least one and at most as
  many as Features reference it, and is stamped with the frame's id; every other Point is
  unchanged. If moreover the Features reference pairwise distinct Points, \<open>R\<close> has exactly
  \<open>min (max_n_pts, number of candidates)\<close> elements and each refined Point received
  exactly one \<open>optimize (max_iter)\<close> call. If the candidates' marks are 5, 1, 9 and 3 in
  any order and \<open>max_n_pts = 2\<close>, then \<open>R\<close> is exactly the Points marked 1 and 3.
\<close>

theorem optimizeStructure_refines_least_recent:
  assumes valid: "set (collect_pts (fts frame)) \<subseteq> dom h"
    and nth: "nth_element_post (cmp_ptr h)
                (min (unat max_n_pts) (length (collect_pts (fts frame))))
                (collect_pts (fts frame))
                (nth_element (cmp_ptr h)
                   (min (unat max_n_pts) (length (collect_pts (fts frame))))
                   (collect_pts (fts frame)))"
  shows "case optimizeStructure nth_element frame max_n_pts max_iter h of
           None \<Rightarrow> False
         | Some h' \<Rightarrow>
             (let pts = collect_pts (fts frame);
                  cands = {p. \<exists>ft\<in>set (fts frame). point ft = Some p};
                  R = refined h h'
              in R \<subseteq> cands
                 \<and> card R \<le> min (unat max_n_pts) (card cands)
                 \<and> (\<forall>p\<in>R. \<forall>q\<in>cands - R. mark h p \<le> mark h q)
                 \<and> (\<forall>p\<in>R. \<exists>pt k. h p = Some pt \<and> 1 \<le> k \<and> k \<le> count_list pts p
                        \<and> h' p = Some (pt\<lparr>last_structure_optim := frame_id frame,
                                             optimize_calls :=
                                               optimize_calls pt @ replicate k max_iter\<rparr>))
                 \<and> (\<forall>p. p \<notin> R \<longrightarrow> h' p = h p)
                 \<and> (distinct pts \<longrightarrow>
                      card R = min (unat max_n_pts) (card cands)
                      \<and> (\<forall>p\<in>R. \<exists>pt. h p = Some pt
                             \<and> h' p = Some (pt\<lparr>last_structure_optim := frame_id frame,
                                                  optimize_calls :=
                                                    optimize_calls pt @ [max_iter]\<rparr>)))
                 \<and> (mset (map (mark h) pts) = {#5, 1, 9, 3#} \<and> unat max_n_pts = 2
                    \<longrightarrow> R = {p \<in> cands. mark h p = 1 \<or> mark h p = 3}))"
proof -
  define pts where "pts = collect_pts (fts frame)"
  define n where "n = min (unat max_n_pts) (length pts)"
  define ys where "ys = nth_element (cmp_ptr h) n pts"
  define cands where "cands = {p. \<exists>ft\<in>set (fts frame). point ft = Some p}"
  have cands: "set pts = cands"
    by (simp add: pts_def cands_def collect_pts_set)
  have post: "nth_element_post (cmp_ptr h) n pts ys"
    using nth by (simp add: pts_def n_def ys_def)
  have vpts: "set pts \<subseteq> dom h"
    using valid by (simp add: pts_def)
  have nle: "n \<le> length pts"
    by (simp add: n_def)
  note facts = nth_element_post_facts [OF post]
  have vtake: "set (take n ys) \<subseteq> dom h"
    using facts(1) vpts by blast
  from refine_pts_result [OF vtake, of "frame_id frame" max_iter]
  obtain h' where run: "refine_pts (frame_id frame) max_iter (take n ys) h = Some h'"
    and upd: "\<forall>p. h' p = (if p \<in> set (take n ys)
                 then map_option (\<lambda>pt. pt\<lparr>last_structure_optim := frame_id frame,
                        optimize_calls :=
                          optimize_calls pt @ replicate (count_list (take n ys) p) max_iter\<rparr>) (h p)
                 else h p)"
    by blast
  have "\<not> list_ex (\<lambda>p. h p = None) pts"
    using vpts by (auto simp add: list_ex_iff)
  then have res: "optimizeStructure nth_element frame max_n_pts max_iter h = Some h'"
    using run by (simp add: optimizeStructure_def Let_def pts_def [symmetric]
        n_def [symmetric] ys_def [symmetric])
  have R: "refined h h' = set (take n ys)"
    using vtake upd by (rule refined_after_refine)
  have c1: "refined h h' \<subseteq> cands"
    using R facts(1) cands by simp
  have "finite cands"
    using cands by (metis List.finite_set)
  then have "card (refined h h') \<le> card cands"
    using c1 by (intro card_mono)
  moreover have "card (refined h h') \<le> unat max_n_pts"
    using R facts(2) by (simp add: n_def)
  ultimately have c2: "card (refined h h') \<le> min (unat max_n_pts) (card cands)"
    by simp
  have c3: "\<forall>p\<in>refined h h'. \<forall>q\<in>cands - refined h h'. mark h p \<le> mark h q"
  proof (intro ballI)
    fix p q assume p: "p \<in> refined h h'" and q: "q \<in> cands - refined h h'"
    from p R have pt: "p \<in> set (take n ys)" by simp
    from q R cands facts(3) have qd: "q \<in> set (drop n ys)" by auto
    from pt qd facts(4) have "\<not> cmp_ptr h q p" by blast
    moreover have "p \<in> dom h" using pt vtake by blast
    moreover have "q \<in> dom h" using q cands vpts by blast
    ultimately show "mark h p \<le> mark h q"
      by (simp add: cmp_ptr_mark)
  qed
  have c4: "\<forall>p\<in>refined h h'. \<exists>pt k. h p = Some pt \<and> 1 \<le> k \<and> k \<le> count_list pts p
              \<and> h' p = Some (pt\<lparr>last_structure_optim := frame_id frame,
                                   optimize_calls := optimize_calls pt @ replicate k max_iter\<rparr>)"
  proof
    fix p assume "p \<in> refined h h'"
    with R have pt: "p \<in> set (take n ys)" by simp
    with vtake obtain pt0 where h0: "h p = Some pt0" by auto
    from pt have "count_list (take n ys) p \<noteq> 0"
      by (simp add: count_list_0_iff)
    then have "1 \<le> count_list (take n ys) p" by simp
    moreover have "count_list (take n ys) p \<le> count_list pts p"
      by (rule facts(5))
    moreover have "h' p = Some (pt0\<lparr>last_structure_optim := frame_id frame,
        optimize_calls := optimize_calls pt0 @ replicate (count_list (take n ys) p) max_iter\<rparr>)"
      using pt upd h0 by simp
    ultimately show "\<exists>pt k. h p = Some pt \<and> 1 \<le> k \<and> k \<le> count_list pts p
              \<and> h' p = Some (pt\<lparr>last_structure_optim := frame_id frame,
                                   optimize_calls := optimize_calls pt @ replicate k max_iter\<rparr>)"
      using h0 by blast
  qed
  have c5: "\<forall>p. p \<notin> refined h h' \<longrightarrow> h' p = h p"
    using R upd by simp
  have exact: "card (refined h h') = min (unat max_n_pts) (card cands)" if d: "distinct pts"
  proof -
    have "card cands = length pts"
      using cands d by (metis distinct_card)
    then show ?thesis
      using R facts(6) [OF d nle] by (simp add: n_def)
  qed
  have c6: "distinct pts \<longrightarrow>
              card (refined h h') = min (unat max_n_pts) (card cands)
              \<and> (\<forall>p\<in>refined h h'. \<exists>pt. h p = Some pt
                     \<and> h' p = Some (pt\<lparr>last_structure_optim := frame_id frame,
                                          optimize_calls := optimize_calls pt @ [max_iter]\<rparr>))"
  proof (intro impI conjI ballI)
    assume d: "distinct pts"
    show "card (refined h h') = min (unat max_n_pts) (card cands)"
      using d by (rule exact)
    fix p assume "p \<in> refined h h'"
    with R have pt: "p \<in> set (take n ys)" by simp
    with vtake obtain pt0 where h0: "h p = Some pt0" by auto
    from pt have "count_list (take n ys) p \<noteq> 0"
      by (simp add: count_list_0_iff)
    with facts(7) [OF d, of p] have "count_list (take n ys) p = 1" by simp
    with pt upd h0 show "\<exists>pt. h p = Some pt
                     \<and> h' p = Some (pt\<lparr>last_structure_optim := frame_id frame,
                                          optimize_calls := optimize_calls pt @ [max_iter]\<rparr>)"
      by simp
  qed
  have c7: "mset (map (mark h) pts) = {#5, 1, 9, 3#} \<and> unat max_n_pts = 2
            \<longrightarrow> refined h h' = {p \<in> cands. mark h p = 1 \<or> mark h p = 3}"
  proof
    assume a: "mset (map (mark h) pts) = {#5, 1, 9, 3#} \<and> unat max_n_pts = 2"
    then have "mset (map (mark h) pts) = mset [5, 1, 9, 3]"
      by simp
    from mset_eq_imp_distinct_iff [OF this] have "distinct (map (mark h) pts)"
      by simp
    then have d: "distinct pts"
      by (simp add: distinct_map)
    from a have "size (mset (map (mark h) pts)) = size {#5, 1, 9, 3::int#}"
      by simp
    then have "length pts = 4" by simp
    with a d have "card cands = 4"
      using cands by (metis distinct_card)
    with a exact [OF d] have "card (refined h h') = 2" by simp
    moreover have "refined h h' \<subseteq> set pts"
      using c1 cands by simp
    moreover have "\<forall>p\<in>refined h h'. \<forall>q\<in>set pts - refined h h'. mark h p \<le> mark h q"
      using c3 cands by simp
    ultimately have "refined h h' = {p \<in> set pts. mark h p = 1 \<or> mark h p = 3}"
      using d a by (intro two_least_of_four) simp_all
    then show "refined h h' = {p \<in> cands. mark h p = 1 \<or> mark h p = 3}"
      using cands by simp
  qed
  from c1 c2 c3 c4 c5 c6 c7 show ?thesis
    unfolding res cands_def pts_def by (simp add: Let_def)
qed

theorem optimizeStructure_refines_least_recent_witness:
  "set (collect_pts (fts example_frame)) \<subseteq> dom example_heap
   \<and> distinct (collect_pts (fts example_frame))
   \<and> nth_element_post (cmp_ptr example_heap)
        (min (unat (2::size_t)) (length (collect_pts (fts example_frame))))
        (collect_pts (fts example_frame))
        (nth_element_sort (cmp_ptr example_heap)
           (min (unat (2::size_t)) (length (collect_pts (fts example_frame))))
           (collect_pts (fts example_frame)))
   \<and> (case optimizeStructure nth_element_sort example_frame 2 10 example_heap of
         None \<Rightarrow> False
       | Some h' \<Rightarrow> refined example_heap h' = {11, 13}
           \<and> h' 11 = Some \<lparr>last_structure_optim = 7, optimize_calls = [10]\<rparr>
           \<and> h' 10 = Some \<lparr>last_structure_optim = 5, optimize_calls = []\<rparr>)
   \<and> set (collect_pts (fts shared_point_frame)) \<subseteq> dom example_heap
   \<and> nth_element_post (cmp_ptr example_heap)
        (min (unat (2::size_t)) (length (collect_pts (fts shared_point_frame))))
        (collect_pts (fts shared_point_frame))
        (nth_element_sort (cmp_ptr example_heap)
           (min (unat (2::size_t)) (length (collect_pts (fts shared_point_frame))))
           (collect_pts (fts shared_point_frame)))
   \<and> (case optimizeStructure nth_element_sort shared_point_frame 2 10 example_heap of
         None \<Rightarrow> False
       | Some h' \<Rightarrow> refined example_heap h' \<subseteq> {10}
           \<and> h' 11 = Some \<lparr>last_structure_optim = 1, optimize_calls = []\<rparr>)"
proof -
  have h1: "set (collect_pts (fts example_frame)) \<subseteq> dom example_heap"
    by (simp add: example_frame_def example_heap_def)
  have h2: "distinct (collect_pts (fts example_frame))"
    by (simp add: example_frame_def)
  have h3: "nth_element_post (cmp_ptr example_heap)
        (min (unat (2::size_t)) (length (collect_pts (fts example_frame))))
        (collect_pts (fts example_frame))
        (nth_element_sort (cmp_ptr example_heap)
           (min (unat (2::size_t)) (length (collect_pts (fts example_frame))))
           (collect_pts (fts example_frame)))"
    using h1 by (rule nth_element_sort_post)
  have marks: "mset (map (mark example_heap) (collect_pts (fts example_frame))) = {#5, 1, 9, 3#}"
    by (simp add: example_frame_def mark_def example_heap_def)
  have two: "unat (2::size_t) = 2"
    by simp
  have sel: "{p \<in> {p. \<exists>ft\<in>set (fts example_frame). point ft = Some p}.
               mark example_heap p = 1 \<or> mark example_heap p = 3} = {11, 13}"
    by (auto simp add: example_frame_def mark_def example_heap_def)
  note inst = optimizeStructure_refines_least_recent
         [where nth_element = nth_element_sort and frame = example_frame and h = example_heap
            and max_n_pts = 2 and max_iter = 10, OF h1 h3]
  from inst obtain h' where
    res: "optimizeStructure nth_element_sort example_frame 2 10 example_heap = Some h'"
    by (auto split: option.splits)
  from inst res marks two sel have R: "refined example_heap h' = {11, 13}"
    by (simp add: Let_def)
  from inst res h2 have
    upd: "\<forall>p\<in>refined example_heap h'. \<exists>pt. example_heap p = Some pt
            \<and> h' p = Some (pt\<lparr>last_structure_optim := frame_id example_frame,
                                 optimize_calls := optimize_calls pt @ [10]\<rparr>)"
    by (simp add: Let_def)
  from inst res have
    same: "\<forall>p. p \<notin> refined example_heap h' \<longrightarrow> h' p = example_heap p"
    by (simp add: Let_def)
  from upd R have a: "h' 11 = Some \<lparr>last_structure_optim = 7, optimize_calls = [10]\<rparr>"
    by (simp add: example_heap_def example_frame_def)
  from same R have b: "h' 10 = Some \<lparr>last_structure_optim = 5, optimize_calls = []\<rparr>"
    by (simp add: example_heap_def)
  have g1: "set (collect_pts (fts shared_point_frame)) \<subseteq> dom example_heap"
    by (simp add: shared_point_frame_def example_heap_def)
  have g3: "nth_element_post (cmp_ptr example_heap)
        (min (unat (2::size_t)) (length (collect_pts (fts shared_point_frame))))
        (collect_pts (fts shared_point_frame))
        (nth_element_sort (cmp_ptr example_heap)
           (min (unat (2::size_t)) (length (collect_pts (fts shared_point_frame))))
           (collect_pts (fts shared_point_frame)))"
    using g1 by (rule nth_element_sort_post)
  note inst2 = optimizeStructure_refines_least_recent
         [where nth_element = nth_element_sort and frame = shared_point_frame
            and h = example_heap and max_n_pts = 2 and max_iter = 10, OF g1 g3]
  from inst2 obtain k' where
    res2: "optimizeStructure nth_element_sort shared_point_frame 2 10 example_heap = Some k'"
    by (auto split: option.splits)
  from inst2 res2 have R2: "refined example_heap k' \<subseteq> {10}"
    by (auto simp add: Let_def shared_point_frame_def)
  from inst2 res2 have
    "\<forall>p. p \<notin> refined example_heap k' \<longrightarrow> k' p = example_heap p"
    by (simp add: Let_def)
  moreover from R2 have "11 \<notin> refined example_heap k'"
    by auto
  ultimately have c: "k' 11 = Some \<lparr>last_structure_optim = 1, optimize_calls = []\<rparr>"
    by (simp add: example_heap_def)
  show ?thesis
    using h1 h2 h3 res R a b g1 g3 res2 R2 c by simp
qed

end
